theory Spec2Isabelle
  imports Main "HOL-Library.Word"
begin

unbundle bit_operations_syntax

section \<open>Go values used by the invoice\<close>

text \<open>
  A \<^verbatim>\<open>float32\<close> is kept as its IEEE-754 binary32 bit pattern. The invoice never
  computes with amounts: it copies them and compares one of them with the constant zero,
  so the only operation modelled is Go's \<^verbatim>\<open>==\<close> on floats (a NaN equals nothing, the two
  zeros equal each other, every other value equals itself only).
\<close>

type_synonym float32 = "32 word"

definition float32_isNaN :: "float32 \<Rightarrow> bool" where
  "float32_isNaN w \<longleftrightarrow> w AND 0x7F800000 = 0x7F800000 \<and> w AND 0x007FFFFF \<noteq> 0"

definition float32_isZero :: "float32 \<Rightarrow> bool" where
  "float32_isZero w \<longleftrightarrow> w AND 0x7FFFFFFF = 0"

definition float32_eq :: "float32 \<Rightarrow> float32 \<Rightarrow> bool" where
  "float32_eq a b \<longleftrightarrow>
     \<not> float32_isNaN a \<and> \<not> float32_isNaN b \<and> (a = b \<or> (float32_isZero a \<and> float32_isZero b))"

text \<open>
  A Go map is a reference that may be nil: \<open>None\<close> is the nil map, \<open>Some f\<close> a map made
  with \<^verbatim>\<open>make\<close>. Reading a key that is absent (or reading the nil map) gives the zero
  value of the element type; assigning into the nil map panics.
\<close>

type_synonym 'v gomap = "(string \<rightharpoonup> 'v) option"

definition make_map :: "'v gomap" where
  "make_map = Some Map.empty"

definition map_index :: "'v \<Rightarrow> 'v gomap \<Rightarrow> string \<Rightarrow> 'v" where
  "map_index zero m k =
     (case m of None \<Rightarrow> zero
      | Some f \<Rightarrow> (case f k of None \<Rightarrow> zero | Some v \<Rightarrow> v))"

definition map_assign :: "'v gomap \<Rightarrow> string \<Rightarrow> 'v \<Rightarrow> 'v gomap option" where
  "map_assign m k v = (case m of None \<Rightarrow> None | Some f \<Rightarrow> Some (Some (f(k \<mapsto> v))))"

text \<open>
  What a call can do besides returning: panic (with its message), or block for ever on a
  mutex that is held.
\<close>

datatype 'a outcome = Returns 'a | Panics string | Blocks

datatype error = Errorf string

definition outcome_bind :: "'a outcome \<Rightarrow> ('a \<Rightarrow> 'b outcome) \<Rightarrow> 'b outcome" where
  "outcome_bind x f = (case x of Returns a \<Rightarrow> f a | Panics msg \<Rightarrow> Panics msg | Blocks \<Rightarrow> Blocks)"

text \<open>
  The verb \<^verbatim>\<open>%d\<close> of \<^verbatim>\<open>fmt.Sprintf\<close> on a slice index (never negative): the decimal
  digits, most significant first, no leading zero, \<^verbatim>\<open>0\<close> for zero.
\<close>

definition digit_char :: "nat \<Rightarrow> char" where
  "digit_char d = char_of (48 + d)"

function decimal :: "nat \<Rightarrow> string" where
  "decimal n = (if n < 10 then [digit_char n] else decimal (n div 10) @ [digit_char (n mod 10)])"
  by pat_completeness auto
termination
  by (relation "measure (\<lambda>n. n)") auto

declare decimal.simps [simp del]

definition Sprintf_d :: "string \<Rightarrow> nat \<Rightarrow> string" where
  "Sprintf_d prefix ix = prefix @ decimal ix"

section \<open>The data model of invoice.go\<close>

text \<open>
  A slice is the list of its elements, the nil slice the empty list: the invoice keeps
  the only reference to the backing arrays of \<^verbatim>\<open>ItemsArr\<close> and \<^verbatim>\<open>TaxesArr\<close>. A string is
  its bytes. The quantity is stored and copied, never computed with, so Go's \<^verbatim>\<open>int\<close> is
  \<open>int\<close> here. The fields of \<^verbatim>\<open>item\<close> and \<^verbatim>\<open>tax\<close> carry the name of their struct, since
  both have a \<^verbatim>\<open>Name\<close> (and \<^verbatim>\<open>invoice\<close> has a \<^verbatim>\<open>Description\<close> too); the embedded mutex is
  the field \<open>Mutex\<close>.
\<close>

record item =
  item_Name :: string
  item_Quantity :: int
  item_UnitPrice :: float32
  item_TotalPrice :: float32
  item_Description :: string

record tax =
  tax_Name :: string
  tax_Amount :: float32

record invoice =
  ItemsArr :: "item list"
  TaxesArr :: "tax list"
  Items :: "item gomap"
  Taxes :: "tax gomap"
  TotalAmount :: float32
  Description :: string
  Actions :: "string gomap"

text \<open>
  The embedded \<^verbatim>\<open>sync.RWMutex\<close>: the invoice only ever takes and releases the write
  lock, so the mutex is either free or held.
\<close>

datatype RWMutex = Unlocked | Locked

text \<open>
  \<^verbatim>\<open>Setup\<close>, \<^verbatim>\<open>Store\<close> and the values of the custom data are declared elsewhere; this
  file never looks inside them, so they are type parameters.
\<close>

record ('setup, 'store, 'val) Invoice =
  Mutex :: RWMutex
  Setup :: 'setup
  Store :: 'store
  InvoiceIn :: invoice
  CustomData :: "'val gomap"

definition item_zero :: item where
  "item_zero = \<lparr>item_Name = [], item_Quantity = 0, item_UnitPrice = 0,
                 item_TotalPrice = 0, item_Description = []\<rparr>"

definition tax_zero :: tax where
  "tax_zero = \<lparr>tax_Name = [], tax_Amount = 0\<rparr>"

definition Lock :: "('s, 't, 'v) Invoice \<Rightarrow> ('s, 't, 'v) Invoice outcome" where
  "Lock i = (case Mutex i of Unlocked \<Rightarrow> Returns (i\<lparr>Mutex := Locked\<rparr>) | Locked \<Rightarrow> Blocks)"

definition Unlock :: "('s, 't, 'v) Invoice \<Rightarrow> ('s, 't, 'v) Invoice outcome" where
  "Unlock i =
     (case Mutex i of
        Locked \<Rightarrow> Returns (i\<lparr>Mutex := Unlocked\<rparr>)
      | Unlocked \<Rightarrow> Panics ''sync: Unlock of unlocked RWMutex'')"

section \<open>Items\<close>

text \<open>The loop of \<^verbatim>\<open>AddItem\<close>: true when it reaches the \<^verbatim>\<open>return\<close> inside the loop.\<close>

fun AddItem_exists :: "string \<Rightarrow> item list \<Rightarrow> bool" where
  "AddItem_exists name [] = False"
| "AddItem_exists name (val # rest) =
     (if item_Name val = name then True else AddItem_exists name rest)"

definition AddItem ::
  "string \<Rightarrow> int \<Rightarrow> float32 \<Rightarrow> float32 \<Rightarrow> string \<Rightarrow> ('s, 't, 'v) Invoice
     \<Rightarrow> error option \<times> ('s, 't, 'v) Invoice" where
  "AddItem name quantity unitPrice totalPrice desc i =
     (if AddItem_exists name (ItemsArr (InvoiceIn i))
      then (Some (Errorf (''Invoice item with name '' @ name @ '' already exists'')), i)
      else
        (let tempItem = item_zero;
             tempItem = tempItem\<lparr>item_Name := name\<rparr>;
             tempItem = tempItem\<lparr>item_Quantity := quantity\<rparr>;
             tempItem = tempItem\<lparr>item_UnitPrice := unitPrice\<rparr>;
             tempItem = tempItem\<lparr>item_TotalPrice := totalPrice\<rparr>;
             tempItem = tempItem\<lparr>item_Description := desc\<rparr>
         in (None, i\<lparr>InvoiceIn := (InvoiceIn i)\<lparr>ItemsArr := ItemsArr (InvoiceIn i) @ [tempItem]\<rparr>\<rparr>)))"

text \<open>
  The loop of \<^verbatim>\<open>RemoveItem\<close>, at index \<open>ix\<close> with \<open>rest\<close> still to visit; \<open>arr\<close> is the
  whole slice. On a match the slice becomes \<^verbatim>\<open>append(arr[:ix], arr[ix+1:]...)\<close> and the
  loop ends.
\<close>

fun RemoveItem_loop :: "string \<Rightarrow> nat \<Rightarrow> item list \<Rightarrow> item list \<Rightarrow> item list" where
  "RemoveItem_loop name ix [] arr = arr"
| "RemoveItem_loop name ix (val # rest) arr =
     (if item_Name val = name then take ix arr @ drop (ix + 1) arr
      else RemoveItem_loop name (ix + 1) rest arr)"

definition RemoveItem :: "string \<Rightarrow> ('s, 't, 'v) Invoice \<Rightarrow> ('s, 't, 'v) Invoice" where
  "RemoveItem name i =
     i\<lparr>InvoiceIn := (InvoiceIn i)
        \<lparr>ItemsArr := RemoveItem_loop name 0 (ItemsArr (InvoiceIn i)) (ItemsArr (InvoiceIn i))\<rparr>\<rparr>"

definition ClearAllItems :: "('s, 't, 'v) Invoice \<Rightarrow> ('s, 't, 'v) Invoice" where
  "ClearAllItems i = i\<lparr>InvoiceIn := (InvoiceIn i)\<lparr>ItemsArr := [], Items := make_map\<rparr>\<rparr>"

section \<open>Taxes\<close>

fun AddTax_exists :: "string \<Rightarrow> tax list \<Rightarrow> bool" where
  "AddTax_exists name [] = False"
| "AddTax_exists name (val # rest) =
     (if tax_Name val = name then True else AddTax_exists name rest)"

definition AddTax ::
  "string \<Rightarrow> float32 \<Rightarrow> ('s, 't, 'v) Invoice \<Rightarrow> error option \<times> ('s, 't, 'v) Invoice" where
  "AddTax name amount i =
     (if AddTax_exists name (TaxesArr (InvoiceIn i))
      then (Some (Errorf (''Tax with '' @ name @ '' already exists'')), i)
      else
        (let tempTax = tax_zero;
             tempTax = tempTax\<lparr>tax_Name := name\<rparr>;
             tempTax = tempTax\<lparr>tax_Amount := amount\<rparr>
         in (None, i\<lparr>InvoiceIn := (InvoiceIn i)\<lparr>TaxesArr := TaxesArr (InvoiceIn i) @ [tempTax]\<rparr>\<rparr>)))"

fun RemoveTax_loop :: "string \<Rightarrow> nat \<Rightarrow> tax list \<Rightarrow> tax list \<Rightarrow> tax list" where
  "RemoveTax_loop name ix [] arr = arr"
| "RemoveTax_loop name ix (val # rest) arr =
     (if tax_Name val = name then take ix arr @ drop (ix + 1) arr
      else RemoveTax_loop name (ix + 1) rest arr)"

definition RemoveTax :: "string \<Rightarrow> ('s, 't, 'v) Invoice \<Rightarrow> ('s, 't, 'v) Invoice" where
  "RemoveTax name i =
     i\<lparr>InvoiceIn := (InvoiceIn i)
        \<lparr>TaxesArr := RemoveTax_loop name 0 (TaxesArr (InvoiceIn i)) (TaxesArr (InvoiceIn i))\<rparr>\<rparr>"

definition ClearAllTaxes :: "('s, 't, 'v) Invoice \<Rightarrow> ('s, 't, 'v) Invoice" where
  "ClearAllTaxes i = i\<lparr>InvoiceIn := (InvoiceIn i)\<lparr>TaxesArr := [], Taxes := make_map\<rparr>\<rparr>"

definition Clear :: "('s, 't, 'v) Invoice \<Rightarrow> ('s, 't, 'v) Invoice" where
  "Clear i = ClearAllTaxes (ClearAllItems i)"

section \<open>Description, total amount, custom data\<close>

definition SetDescription :: "string \<Rightarrow> ('s, 't, 'v) Invoice \<Rightarrow> ('s, 't, 'v) Invoice outcome" where
  "SetDescription desc i =
     (if desc = [] then Panics ''provide the description argument''
      else Returns (i\<lparr>InvoiceIn := (InvoiceIn i)\<lparr>Description := desc\<rparr>\<rparr>))"

definition SetTotalAmount :: "float32 \<Rightarrow> ('s, 't, 'v) Invoice \<Rightarrow> ('s, 't, 'v) Invoice outcome" where
  "SetTotalAmount amt i =
     (if float32_eq amt 0 then Panics ''provide the totalAmount argument''
      else Returns (i\<lparr>InvoiceIn := (InvoiceIn i)\<lparr>TotalAmount := amt\<rparr>\<rparr>))"

definition SetCustomData ::
  "string \<Rightarrow> 'v \<Rightarrow> ('s, 't, 'v) Invoice \<Rightarrow> ('s, 't, 'v) Invoice outcome" where
  "SetCustomData key val i =
     (let i = (if CustomData i = None then i\<lparr>CustomData := make_map\<rparr> else i)
      in outcome_bind (Lock i) (\<lambda>i.
           case map_assign (CustomData i) key val of
             None \<Rightarrow> Panics ''assignment to entry in nil map''
           | Some m \<Rightarrow> Unlock (i\<lparr>CustomData := m\<rparr>)))"

section \<open>Finalization\<close>

text \<open>
  The two loops of \<^verbatim>\<open>PrepareForRequest\<close>, at index \<open>ix\<close> with \<open>rest\<close> still to visit,
  on the map they fill. Each round stores the zero record under the generated key, reads
  it back into the temporary, copies the fields over and stores the temporary.
\<close>

fun PrepareForRequest_items :: "nat \<Rightarrow> item list \<Rightarrow> item gomap \<Rightarrow> item gomap outcome" where
  "PrepareForRequest_items ix [] m = Returns m"
| "PrepareForRequest_items ix (val # rest) m =
     (let itemName = Sprintf_d ''item_'' ix in
      case map_assign m itemName item_zero of
        None \<Rightarrow> Panics ''assignment to entry in nil map''
      | Some m \<Rightarrow>
          (let tempItem = map_index item_zero m itemName;
               tempItem = tempItem\<lparr>item_Name := item_Name val\<rparr>;
               tempItem = tempItem\<lparr>item_Quantity := item_Quantity val\<rparr>;
               tempItem = tempItem\<lparr>item_UnitPrice := item_UnitPrice val\<rparr>;
               tempItem = tempItem\<lparr>item_TotalPrice := item_TotalPrice val\<rparr>;
               tempItem = tempItem\<lparr>item_Description := item_Description val\<rparr>
           in case map_assign m itemName tempItem of
                None \<Rightarrow> Panics ''assignment to entry in nil map''
              | Some m \<Rightarrow> PrepareForRequest_items (ix + 1) rest m))"

fun PrepareForRequest_taxes :: "nat \<Rightarrow> tax list \<Rightarrow> tax gomap \<Rightarrow> tax gomap outcome" where
  "PrepareForRequest_taxes ix [] m = Returns m"
| "PrepareForRequest_taxes ix (val # rest) m =
     (let taxName = Sprintf_d ''tax_'' ix in
      case map_assign m taxName tax_zero of
        None \<Rightarrow> Panics ''assignment to entry in nil map''
      | Some m \<Rightarrow>
          (let tempTax = map_index tax_zero m taxName;
               tempTax = tempTax\<lparr>tax_Name := tax_Name val\<rparr>;
               tempTax = tempTax\<lparr>tax_Amount := tax_Amount val\<rparr>
           in case map_assign m taxName tempTax of
                None \<Rightarrow> Panics ''assignment to entry in nil map''
              | Some m \<Rightarrow> PrepareForRequest_taxes (ix + 1) rest m))"

definition PrepareForRequest :: "('s, 't, 'v) Invoice \<Rightarrow> ('s, 't, 'v) Invoice outcome" where
  "PrepareForRequest i =
     (let i = i\<lparr>InvoiceIn := (InvoiceIn i)\<lparr>Items := make_map\<rparr>\<rparr>;
          i = i\<lparr>InvoiceIn := (InvoiceIn i)\<lparr>Taxes := make_map\<rparr>\<rparr>
      in outcome_bind (Lock i) (\<lambda>i.
         outcome_bind (PrepareForRequest_items 0 (ItemsArr (InvoiceIn i)) (Items (InvoiceIn i))) (\<lambda>m.
           let i = i\<lparr>InvoiceIn := (InvoiceIn i)\<lparr>Items := m\<rparr>\<rparr> in
         outcome_bind (PrepareForRequest_taxes 0 (TaxesArr (InvoiceIn i)) (Taxes (InvoiceIn i))) (\<lambda>m.
           let i = i\<lparr>InvoiceIn := (InvoiceIn i)\<lparr>Taxes := m\<rparr>\<rparr> in
         Unlock i))))"

section \<open>Sequences of calls\<close>

text \<open>
  A run of \<^verbatim>\<open>AddItem\<close> calls on one invoice, in order, with the error each call returned.
\<close>

type_synonym AddItem_args = "string \<times> int \<times> float32 \<times> float32 \<times> string"

fun AddItem_calls ::
  "AddItem_args list \<Rightarrow> ('s, 't, 'v) Invoice \<Rightarrow> error option list \<times> ('s, 't, 'v) Invoice" where
  "AddItem_calls [] i = ([], i)"
| "AddItem_calls ((name, quantity, unitPrice, totalPrice, desc) # calls) i =
     (let (err, i) = AddItem name quantity unitPrice totalPrice desc i;
          (errs, i) = AddItem_calls calls i
      in (err # errs, i))"

text \<open>The item that \<^verbatim>\<open>AddItem\<close> builds from its arguments.\<close>

fun item_of_args :: "AddItem_args \<Rightarrow> item" where
  "item_of_args (name, quantity, unitPrice, totalPrice, desc) =
     \<lparr>item_Name = name, item_Quantity = quantity, item_UnitPrice = unitPrice,
      item_TotalPrice = totalPrice, item_Description = desc\<rparr>"

text \<open>
  The calls of a client that edits and finalizes one invoice, one after the other; the
  errors returned by \<^verbatim>\<open>AddItem\<close> and \<^verbatim>\<open>AddTax\<close> are dropped, as a caller may. A run
  ends where a call does not return.
\<close>

datatype call =
    AddItem_call string int float32 float32 string
  | RemoveItem_call string
  | ClearAllItems_call
  | AddTax_call string float32
  | RemoveTax_call string
  | ClearAllTaxes_call
  | Clear_call
  | PrepareForRequest_call

fun do_call :: "call \<Rightarrow> ('s, 't, 'v) Invoice \<Rightarrow> ('s, 't, 'v) Invoice outcome" where
  "do_call (AddItem_call name quantity unitPrice totalPrice desc) i =
     Returns (snd (AddItem name quantity unitPrice totalPrice desc i))"
| "do_call (RemoveItem_call name) i = Returns (RemoveItem name i)"
| "do_call ClearAllItems_call i = Returns (ClearAllItems i)"
| "do_call (AddTax_call name amount) i = Returns (snd (AddTax name amount i))"
| "do_call (RemoveTax_call name) i = Returns (RemoveTax name i)"
| "do_call ClearAllTaxes_call i = Returns (ClearAllTaxes i)"
| "do_call Clear_call i = Returns (Clear i)"
| "do_call PrepareForRequest_call i = PrepareForRequest i"

fun do_calls :: "call list \<Rightarrow> ('s, 't, 'v) Invoice \<Rightarrow> ('s, 't, 'v) Invoice outcome" where
  "do_calls [] i = Returns i"
| "do_calls (c # cs) i = outcome_bind (do_call c i) (do_calls cs)"

definition names_unique :: "('s, 't, 'v) Invoice \<Rightarrow> bool" where
  "names_unique i \<longleftrightarrow>
     distinct (map item_Name (ItemsArr (InvoiceIn i))) \<and>
     distinct (map tax_Name (TaxesArr (InvoiceIn i)))"

section \<open>Two goroutines calling SetCustomData\<close>

text \<open>
  \<^verbatim>\<open>SetCustomData\<close> statement by statement. A goroutine inside the call is at the test
  \<^verbatim>\<open>i.CustomData == nil\<close>, at the assignment of the fresh map, at \<^verbatim>\<open>i.Lock()\<close>, at the
  assignment \<^verbatim>\<open>i.CustomData[key] = val\<close>, at \<^verbatim>\<open>i.Unlock()\<close>, or has returned. One step
  runs the statement it is at on the shared invoice; \<^verbatim>\<open>Lock\<close> on a held mutex cannot
  step (\<open>Blocks\<close>). Every statement is one indivisible step: the model has fewer
  interleavings than the program, never more.
\<close>

datatype pc = AtNilCheck | AtMake | AtLock | AtAssign | AtUnlock | Done

fun SetCustomData_step ::
  "string \<Rightarrow> 'v \<Rightarrow> pc \<Rightarrow> ('s, 't, 'v) Invoice \<Rightarrow> (pc \<times> ('s, 't, 'v) Invoice) outcome" where
  "SetCustomData_step key val AtNilCheck i =
     Returns (if CustomData i = None then AtMake else AtLock, i)"
| "SetCustomData_step key val AtMake i = Returns (AtLock, i\<lparr>CustomData := make_map\<rparr>)"
| "SetCustomData_step key val AtLock i = outcome_bind (Lock i) (\<lambda>i. Returns (AtAssign, i))"
| "SetCustomData_step key val AtAssign i =
     (case map_assign (CustomData i) key val of
        None \<Rightarrow> Panics ''assignment to entry in nil map''
      | Some m \<Rightarrow> Returns (AtUnlock, i\<lparr>CustomData := m\<rparr>))"
| "SetCustomData_step key val AtUnlock i = outcome_bind (Unlock i) (\<lambda>i. Returns (Done, i))"
| "SetCustomData_step key val Done i = Returns (Done, i)"

text \<open>The first \<open>n\<close> steps of one goroutine on its own.\<close>

fun SetCustomData_steps ::
  "nat \<Rightarrow> string \<Rightarrow> 'v \<Rightarrow> pc \<times> ('s, 't, 'v) Invoice \<Rightarrow> (pc \<times> ('s, 't, 'v) Invoice) outcome" where
  "SetCustomData_steps 0 key val c = Returns c"
| "SetCustomData_steps (Suc n) key val (p, i) =
     outcome_bind (SetCustomData_step key val p i) (SetCustomData_steps n key val)"

text \<open>
  Two goroutines, the first in \<^verbatim>\<open>SetCustomData(k1, v1)\<close> and the second in
  \<^verbatim>\<open>SetCustomData(k2, v2)\<close> on the same invoice, run in the order a schedule gives: each
  entry lets one of them take its next step.
\<close>

datatype goroutine = G1 | G2

fun interleave ::
  "string \<Rightarrow> 'v \<Rightarrow> string \<Rightarrow> 'v \<Rightarrow> goroutine list \<Rightarrow> pc \<times> pc \<times> ('s, 't, 'v) Invoice
     \<Rightarrow> (pc \<times> pc \<times> ('s, 't, 'v) Invoice) outcome" where
  "interleave k1 v1 k2 v2 [] c = Returns c"
| "interleave k1 v1 k2 v2 (G1 # sched) (p1, p2, i) =
     outcome_bind (SetCustomData_step k1 v1 p1 i) (\<lambda>(p1, i). interleave k1 v1 k2 v2 sched (p1, p2, i))"
| "interleave k1 v1 k2 v2 (G2 # sched) (p1, p2, i) =
     outcome_bind (SetCustomData_step k2 v2 p2 i) (\<lambda>(p2, i). interleave k1 v1 k2 v2 sched (p1, p2, i))"

section \<open>Auxiliary definitions for the proofs\<close>

text \<open>
  The map that holds, on top of \<open>f\<close>, the \<open>k\<close>-th element of \<open>xs\<close> under the key
  \<open>key (ix + k)\<close>, later elements written last.
\<close>

fun keyed :: "(nat \<Rightarrow> string) \<Rightarrow> nat \<Rightarrow> 'a list \<Rightarrow> (string \<rightharpoonup> 'a) \<Rightarrow> (string \<rightharpoonup> 'a)" where
  "keyed key ix [] f = f"
| "keyed key ix (x # xs) f = keyed key (Suc ix) xs (f(key ix \<mapsto> x))"

text \<open>
  The invariant of the runs that start with the custom data already made: nobody is about
  to replace the map, and a goroutine that is past its assignment has its key in the map.
\<close>

definition initialised :: "string \<Rightarrow> 'v \<Rightarrow> string \<Rightarrow> 'v \<Rightarrow> pc \<times> pc \<times> ('s, 't, 'v) Invoice \<Rightarrow> bool" where
  "initialised k1 v1 k2 v2 c =
     (case c of (p1, p2, i) \<Rightarrow>
        p1 \<noteq> AtMake \<and> p2 \<noteq> AtMake \<and>
        (case CustomData i of None \<Rightarrow> False
         | Some m \<Rightarrow> (p1 \<in> {AtUnlock, Done} \<longrightarrow> m k1 = Some v1) \<and>
                     (p2 \<in> {AtUnlock, Done} \<longrightarrow> m k2 = Some v2)))"

section \<open>Concrete inputs\<close>

text \<open>
  Three items and a tax. The amounts are the binary32 patterns of 50.0 (\<open>0x42480000\<close>),
  100.0 (\<open>0x42C80000\<close>), 150.0 (\<open>0x43160000\<close>) and 30.0 (\<open>0x41F00000\<close>).
\<close>

definition item_A :: item where
  "item_A = \<lparr>item_Name = ''A'', item_Quantity = 1, item_UnitPrice = 0x42480000,
              item_TotalPrice = 0x42480000, item_Description = ''first''\<rparr>"

definition item_B :: item where
  "item_B = \<lparr>item_Name = ''B'', item_Quantity = 2, item_UnitPrice = 0x42480000,
              item_TotalPrice = 0x42C80000, item_Description = ''second''\<rparr>"

definition item_C :: item where
  "item_C = \<lparr>item_Name = ''C'', item_Quantity = 3, item_UnitPrice = 0x42480000,
              item_TotalPrice = 0x43160000, item_Description = ''third''\<rparr>"

definition tax_VAT :: tax where
  "tax_VAT = \<lparr>tax_Name = ''VAT'', tax_Amount = 0x41F00000\<rparr>"

text \<open>
  The zero value of the struct; the invoice with A, B and C; the invoice reached from it by
  finalizing and then removing B (its transmission map still has the three entries of the
  finalization); and an invoice whose slice holds the same name twice, as a caller who
  writes the exported field can make it.
\<close>

definition Invoice_zero :: "(unit, unit, unit) Invoice" where
  "Invoice_zero =
     \<lparr>Mutex = Unlocked, Setup = (), Store = (),
      InvoiceIn = \<lparr>ItemsArr = [], TaxesArr = [], Items = None, Taxes = None,
                   TotalAmount = 0, Description = [], Actions = None\<rparr>,
      CustomData = None\<rparr>"

definition Invoice_ABC :: "(unit, unit, unit) Invoice" where
  "Invoice_ABC =
     \<lparr>Mutex = Unlocked, Setup = (), Store = (),
      InvoiceIn = \<lparr>ItemsArr = [item_A, item_B, item_C], TaxesArr = [tax_VAT],
                   Items = None, Taxes = None,
                   TotalAmount = 0, Description = [], Actions = None\<rparr>,
      CustomData = None\<rparr>"

definition Invoice_edited :: "(unit, unit, unit) Invoice" where
  "Invoice_edited =
     \<lparr>Mutex = Unlocked, Setup = (), Store = (),
      InvoiceIn = \<lparr>ItemsArr = [item_A, item_C], TaxesArr = [tax_VAT],
                   Items = Some [''item_0'' \<mapsto> item_A, ''item_1'' \<mapsto> item_B, ''item_2'' \<mapsto> item_C],
                   Taxes = Some [''tax_0'' \<mapsto> tax_VAT],
                   TotalAmount = 0x43160000, Description = ''order'', Actions = None\<rparr>,
      CustomData = None\<rparr>"

definition Invoice_twice :: "(unit, unit, unit) Invoice" where
  "Invoice_twice =
     \<lparr>Mutex = Unlocked, Setup = (), Store = (),
      InvoiceIn = \<lparr>ItemsArr = [item_A, item_A], TaxesArr = [],
                   Items = None, Taxes = None,
                   TotalAmount = 0, Description = [], Actions = None\<rparr>,
      CustomData = None\<rparr>"

text \<open>A run with duplicate insertions, removals, clearing and two finalizations.\<close>

definition client_calls :: "call list" where
  "client_calls =
     [AddItem_call ''A'' 1 0x42480000 0x42480000 ''first'',
      AddItem_call ''B'' 2 0x42480000 0x42C80000 ''second'',
      AddItem_call ''A'' 5 0 0 ''again'',
      AddTax_call ''VAT'' 0x41F00000,
      AddTax_call ''VAT'' 0x41F00000,
      PrepareForRequest_call,
      RemoveItem_call ''A'',
      AddItem_call ''A'' 5 0 0 ''again'',
      RemoveTax_call ''GST'',
      ClearAllTaxes_call,
      PrepareForRequest_call]"

text \<open>
  A new invoice (the custom data still nil) and a schedule in which both goroutines pass
  the nil test before either has stored its map.
\<close>

definition Invoice_unset :: "(unit, unit, string) Invoice" where
  "Invoice_unset =
     \<lparr>Mutex = Unlocked, Setup = (), Store = (),
      InvoiceIn = \<lparr>ItemsArr = [], TaxesArr = [], Items = None, Taxes = None,
                   TotalAmount = 0, Description = [], Actions = None\<rparr>,
      CustomData = None\<rparr>"

definition racing_schedule :: "goroutine list" where
  "racing_schedule = [G1, G2, G1, G1, G1, G1, G2, G2, G2, G2]"

section \<open>Generated keys\<close>

lemma digit_char_inj: "a < 10 \<Longrightarrow> b < 10 \<Longrightarrow> digit_char a = digit_char b \<Longrightarrow> a = b"
proof -
  assume a: "a < 10" and b: "b < 10" and e: "digit_char a = digit_char b"
  from e have "of_char (char_of (48 + a) :: char) = (of_char (char_of (48 + b) :: char) :: nat)"
    by (simp add: digit_char_def)
  then have "(48 + a) mod 256 = (48 + b) mod 256" by simp
  with a b show "a = b" by simp
qed

lemma decimal_nonempty: "decimal n \<noteq> []"
  by (subst decimal.simps) simp

lemma decimal_inj: "decimal a = decimal b \<Longrightarrow> a = b"
proof (induction a arbitrary: b rule: decimal.induct)
  case (1 n)
  show ?case
  proof (cases "n < 10")
    case True
    show ?thesis
    proof (cases "b < 10")
      case b: True
      from "1.prems" True b have "digit_char n = digit_char b"
        by (simp add: decimal.simps)
      with True b show ?thesis by (rule digit_char_inj)
    next
      case b: False
      from "1.prems" True b have "[digit_char n] = decimal (b div 10) @ [digit_char (b mod 10)]"
        by (simp add: decimal.simps[of n] decimal.simps[of b])
      then have "decimal (b div 10) = []" by simp
      then show ?thesis by (simp add: decimal_nonempty)
    qed
  next
    case False
    show ?thesis
    proof (cases "b < 10")
      case b: True
      from "1.prems" False b have "decimal (n div 10) @ [digit_char (n mod 10)] = [digit_char b]"
        by (simp add: decimal.simps[of n] decimal.simps[of b])
      then have "decimal (n div 10) = []" by simp
      then show ?thesis by (simp add: decimal_nonempty)
    next
      case b: False
      from "1.prems" False b
      have e: "decimal (n div 10) @ [digit_char (n mod 10)] = decimal (b div 10) @ [digit_char (b mod 10)]"
        by (simp add: decimal.simps[of n] decimal.simps[of b])
      then have "decimal (n div 10) = decimal (b div 10)" by simp
      with "1.IH" False have d: "n div 10 = b div 10" by blast
      from e have "digit_char (n mod 10) = digit_char (b mod 10)" by simp
      then have m: "n mod 10 = b mod 10" by (intro digit_char_inj) simp_all
      from d m show ?thesis by (metis div_mult_mod_eq)
    qed
  qed
qed

lemma Sprintf_d_inj: "Sprintf_d p a = Sprintf_d p b \<Longrightarrow> a = b"
  by (simp add: Sprintf_d_def decimal_inj)

lemma decimal_small: "decimal 0 = ''0''" "decimal (Suc 0) = ''1''" "decimal 2 = ''2''"
  by code_simp+

lemma Sprintf_d_small:
  "Sprintf_d p 0 = p @ ''0''" "Sprintf_d p (Suc 0) = p @ ''1''" "Sprintf_d p 2 = p @ ''2''"
  unfolding Sprintf_d_def decimal_small by simp_all

section \<open>The finalization loops\<close>

lemma item_copy:
  "item_zero\<lparr>item_Name := item_Name v, item_Quantity := item_Quantity v,
      item_UnitPrice := item_UnitPrice v, item_TotalPrice := item_TotalPrice v,
      item_Description := item_Description v\<rparr> = v"
  by (simp add: item_zero_def)

lemma tax_copy: "tax_zero\<lparr>tax_Name := tax_Name v, tax_Amount := tax_Amount v\<rparr> = v"
  by (simp add: tax_zero_def)

lemma PrepareForRequest_items_eq:
  "PrepareForRequest_items ix xs (Some f) = Returns (Some (keyed (Sprintf_d ''item_'') ix xs f))"
  by (induction xs arbitrary: ix f) (simp_all add: map_assign_def map_index_def item_copy)

lemma PrepareForRequest_taxes_eq:
  "PrepareForRequest_taxes ix xs (Some f) = Returns (Some (keyed (Sprintf_d ''tax_'') ix xs f))"
  by (induction xs arbitrary: ix f) (simp_all add: map_assign_def map_index_def tax_copy)

lemma keyed_other:
  "\<forall>k < length xs. s \<noteq> key (ix + k) \<Longrightarrow> keyed key ix xs f s = f s"
proof (induction xs arbitrary: ix f)
  case Nil
  show ?case by simp
next
  case (Cons x xs)
  from Cons.prems have "s \<noteq> key ix" by force
  moreover from Cons.prems have "\<forall>k < length xs. s \<noteq> key (Suc ix + k)" by force
  then have "keyed key (Suc ix) xs (f(key ix \<mapsto> x)) s = (f(key ix \<mapsto> x)) s"
    by (rule Cons.IH)
  ultimately show ?case by simp
qed

lemma keyed_nth:
  "inj key \<Longrightarrow> k < length xs \<Longrightarrow> keyed key ix xs f (key (ix + k)) = Some (xs ! k)"
proof (induction xs arbitrary: ix f k)
  case Nil
  then show ?case by simp
next
  case (Cons x xs)
  show ?case
  proof (cases k)
    case 0
    have "\<forall>j < length xs. key ix \<noteq> key (Suc ix + j)"
      using Cons.prems(1) by (simp add: inj_eq)
    then have "keyed key (Suc ix) xs (f(key ix \<mapsto> x)) (key ix) = (f(key ix \<mapsto> x)) (key ix)"
      by (rule keyed_other)
    then show ?thesis using 0 by simp
  next
    case (Suc j)
    with Cons.prems have "j < length xs" by simp
    with Cons.prems(1)
    have "keyed key (Suc ix) xs (f(key ix \<mapsto> x)) (key (Suc ix + j)) = Some (xs ! j)"
      by (rule Cons.IH)
    then show ?thesis using Suc by simp
  qed
qed

lemma keyed_dom:
  "dom (keyed key ix xs f) = dom f \<union> {key (ix + k) | k. k < length xs}"
proof (induction xs arbitrary: ix f)
  case Nil
  show ?case by simp
next
  case (Cons x xs)
  have "{key (ix + k) | k. k < length (x # xs)} = insert (key ix) {key (Suc ix + k) | k. k < length xs}"
  proof (intro set_eqI iffI)
    fix s assume "s \<in> {key (ix + k) | k. k < length (x # xs)}"
    then obtain k where k: "s = key (ix + k)" "k < Suc (length xs)" by auto
    show "s \<in> insert (key ix) {key (Suc ix + k) | k. k < length xs}"
    proof (cases k)
      case 0 with k show ?thesis by simp
    next
      case (Suc j) with k show ?thesis by auto
    qed
  next
    fix s assume "s \<in> insert (key ix) {key (Suc ix + k) | k. k < length xs}"
    then have "s = key (ix + 0) \<or> (\<exists>k. s = key (ix + Suc k) \<and> Suc k < length (x # xs))" by auto
    then show "s \<in> {key (ix + k) | k. k < length (x # xs)}" by fastforce
  qed
  moreover have "dom (keyed key (Suc ix) xs (f(key ix \<mapsto> x))) =
      dom (f(key ix \<mapsto> x)) \<union> {key (Suc ix + k) | k. k < length xs}"
    by (rule Cons.IH)
  ultimately show ?case by auto
qed

lemma inj_Sprintf_d: "inj (Sprintf_d p)"
  by (rule injI) (rule Sprintf_d_inj)

lemma PrepareForRequest_returns:
  "Mutex i = Unlocked \<Longrightarrow>
   PrepareForRequest i =
     Returns (i\<lparr>InvoiceIn := (InvoiceIn i)
       \<lparr>Items := Some (keyed (Sprintf_d ''item_'') 0 (ItemsArr (InvoiceIn i)) Map.empty),
        Taxes := Some (keyed (Sprintf_d ''tax_'') 0 (TaxesArr (InvoiceIn i)) Map.empty)\<rparr>\<rparr>)"
  by (simp add: PrepareForRequest_def Lock_def Unlock_def outcome_bind_def make_map_def
      PrepareForRequest_items_eq PrepareForRequest_taxes_eq)

lemma PrepareForRequest_blocks:
  "Mutex i = Locked \<Longrightarrow> PrepareForRequest i = Blocks"
  by (simp add: PrepareForRequest_def Lock_def outcome_bind_def)

section \<open>Finalization rebuilds the transmission maps (C1)\<close>

text \<open>
  C1. Whenever \<^verbatim>\<open>PrepareForRequest\<close> returns (and it does when the mutex is free), the
  ordered sequences are as before, \<^verbatim>\<open>Items\<close> holds exactly the keys \<^verbatim>\<open>item_0\<close> ..
  \<^verbatim>\<open>item_(n-1)\<close> for the \<open>n\<close> elements of \<^verbatim>\<open>ItemsArr\<close>, the key \<^verbatim>\<open>item_k\<close> mapped to
  the element at position \<open>k\<close>, and \<^verbatim>\<open>Taxes\<close> likewise holds exactly \<^verbatim>\<open>tax_0\<close> ..
  \<^verbatim>\<open>tax_(m-1)\<close>. Nothing of the earlier contents of the two maps is left.
\<close>

theorem PrepareForRequest_exact:
  "(Mutex i = Unlocked \<longrightarrow> (\<exists>i'. PrepareForRequest i = Returns i')) \<and>
   (\<forall>i'. PrepareForRequest i = Returns i' \<longrightarrow>
      ItemsArr (InvoiceIn i') = ItemsArr (InvoiceIn i) \<and>
      TaxesArr (InvoiceIn i') = TaxesArr (InvoiceIn i) \<and>
      (\<exists>mi mt. Items (InvoiceIn i') = Some mi \<and> Taxes (InvoiceIn i') = Some mt \<and>
         dom mi = {Sprintf_d ''item_'' k | k. k < length (ItemsArr (InvoiceIn i))} \<and>
         (\<forall>k < length (ItemsArr (InvoiceIn i)).
            mi (Sprintf_d ''item_'' k) = Some (ItemsArr (InvoiceIn i) ! k)) \<and>
         dom mt = {Sprintf_d ''tax_'' k | k. k < length (TaxesArr (InvoiceIn i))} \<and>
         (\<forall>k < length (TaxesArr (InvoiceIn i)).
            mt (Sprintf_d ''tax_'' k) = Some (TaxesArr (InvoiceIn i) ! k))))"
proof (cases "Mutex i")
  case Locked
  then show ?thesis by (simp add: PrepareForRequest_blocks)
next
  case Unlocked
  have "keyed (Sprintf_d ''item_'') 0 xs Map.empty (Sprintf_d ''item_'' k) = Some (xs ! k)"
    if "k < length xs" for k and xs :: "item list"
    using keyed_nth[OF inj_Sprintf_d that, of "''item_''" 0 Map.empty] by simp
  moreover have "keyed (Sprintf_d ''tax_'') 0 xs Map.empty (Sprintf_d ''tax_'' k) = Some (xs ! k)"
    if "k < length xs" for k and xs :: "tax list"
    using keyed_nth[OF inj_Sprintf_d that, of "''tax_''" 0 Map.empty] by simp
  ultimately show ?thesis
    using Unlocked by (simp add: PrepareForRequest_returns keyed_dom)
qed

theorem PrepareForRequest_exact_witness:
  "\<exists>i' mi mt. PrepareForRequest Invoice_edited = Returns i' \<and>
     Items (InvoiceIn i') = Some mi \<and> Taxes (InvoiceIn i') = Some mt \<and>
     mi ''item_0'' = Some item_A \<and> mi ''item_1'' = Some item_C \<and> mi ''item_2'' = None \<and>
     mt ''tax_0'' = Some tax_VAT"
proof -
  note ex = PrepareForRequest_exact[of Invoice_edited]
  have u: "Mutex Invoice_edited = Unlocked" by (simp add: Invoice_edited_def)
  have a: "ItemsArr (InvoiceIn Invoice_edited) = [item_A, item_C]"
    and t: "TaxesArr (InvoiceIn Invoice_edited) = [tax_VAT]"
    by (simp_all add: Invoice_edited_def)
  from ex have "Mutex Invoice_edited = Unlocked \<longrightarrow> (\<exists>i'. PrepareForRequest Invoice_edited = Returns i')"
    by (rule conjunct1)
  with u obtain i' where r: "PrepareForRequest Invoice_edited = Returns i'" by (elim impE exE)
  from ex[THEN conjunct2, THEN spec, THEN mp, OF r, THEN conjunct2, THEN conjunct2]
  have "\<exists>mi mt. Items (InvoiceIn i') = Some mi \<and> Taxes (InvoiceIn i') = Some mt \<and>
         dom mi = {Sprintf_d ''item_'' k | k. k < length (ItemsArr (InvoiceIn Invoice_edited))} \<and>
         (\<forall>k < length (ItemsArr (InvoiceIn Invoice_edited)).
            mi (Sprintf_d ''item_'' k) = Some (ItemsArr (InvoiceIn Invoice_edited) ! k)) \<and>
         dom mt = {Sprintf_d ''tax_'' k | k. k < length (TaxesArr (InvoiceIn Invoice_edited))} \<and>
         (\<forall>k < length (TaxesArr (InvoiceIn Invoice_edited)).
            mt (Sprintf_d ''tax_'' k) = Some (TaxesArr (InvoiceIn Invoice_edited) ! k))" .
  then obtain mi mt where m: "Items (InvoiceIn i') = Some mi" "Taxes (InvoiceIn i') = Some mt"
    and d: "dom mi = {Sprintf_d ''item_'' k | k. k < length (ItemsArr (InvoiceIn Invoice_edited))}"
    and v: "\<forall>k < length (ItemsArr (InvoiceIn Invoice_edited)).
              mi (Sprintf_d ''item_'' k) = Some (ItemsArr (InvoiceIn Invoice_edited) ! k)"
    and w: "\<forall>k < length (TaxesArr (InvoiceIn Invoice_edited)).
              mt (Sprintf_d ''tax_'' k) = Some (TaxesArr (InvoiceIn Invoice_edited) ! k)"
    by (elim exE conjE) (rule that, assumption+)
  from v have "mi (Sprintf_d ''item_'' 0) = Some item_A" "mi (Sprintf_d ''item_'' 1) = Some item_C"
    by (simp_all add: a)
  then have v': "mi ''item_0'' = Some item_A" "mi ''item_1'' = Some item_C"
    by (simp_all add: Sprintf_d_small)
  from w have "mt (Sprintf_d ''tax_'' 0) = Some tax_VAT" by (simp add: t)
  then have w': "mt ''tax_0'' = Some tax_VAT" by (simp add: Sprintf_d_small)
  have "''item_2'' \<notin> {Sprintf_d ''item_'' k | k. k < length (ItemsArr (InvoiceIn Invoice_edited))}"
  proof
    assume "''item_2'' \<in> {Sprintf_d ''item_'' k | k. k < length (ItemsArr (InvoiceIn Invoice_edited))}"
    then obtain k where k: "k < length (ItemsArr (InvoiceIn Invoice_edited))"
      and e: "''item_2'' = Sprintf_d ''item_'' k" by blast
    from e have "Sprintf_d ''item_'' 2 = Sprintf_d ''item_'' k" by (simp add: Sprintf_d_small)
    then have "2 = k" by (rule Sprintf_d_inj)
    with k show False by (simp add: a)
  qed
  with d have "mi ''item_2'' = None" by blast
  with r m v' w' show ?thesis by blast
qed

section \<open>Adding items (C2)\<close>

lemma AddItem_exists_iff: "AddItem_exists name xs \<longleftrightarrow> name \<in> item_Name ` set xs"
  by (induction xs) auto

lemma AddTax_exists_iff: "AddTax_exists name xs \<longleftrightarrow> name \<in> tax_Name ` set xs"
  by (induction xs) auto

lemma AddItem_fresh:
  "name \<notin> item_Name ` set (ItemsArr (InvoiceIn i)) \<Longrightarrow>
   AddItem name quantity unitPrice totalPrice desc i =
     (None, i\<lparr>InvoiceIn := (InvoiceIn i)\<lparr>ItemsArr := ItemsArr (InvoiceIn i) @
        [item_of_args (name, quantity, unitPrice, totalPrice, desc)]\<rparr>\<rparr>)"
  by (simp add: AddItem_def AddItem_exists_iff item_zero_def)

lemma AddItem_duplicate:
  "name \<in> item_Name ` set (ItemsArr (InvoiceIn i)) \<Longrightarrow>
   AddItem name quantity unitPrice totalPrice desc i =
     (Some (Errorf (''Invoice item with name '' @ name @ '' already exists'')), i)"
  by (simp add: AddItem_def AddItem_exists_iff)

lemma AddItem_calls_distinct:
  "distinct (map fst calls) \<Longrightarrow>
   fst ` set calls \<inter> item_Name ` set (ItemsArr (InvoiceIn i)) = {} \<Longrightarrow>
   AddItem_calls calls i =
     (replicate (length calls) None,
      i\<lparr>InvoiceIn := (InvoiceIn i)\<lparr>ItemsArr := ItemsArr (InvoiceIn i) @ map item_of_args calls\<rparr>\<rparr>)"
proof (induction calls arbitrary: i)
  case Nil
  show ?case by simp
next
  case (Cons c calls)
  obtain name quantity unitPrice totalPrice desc
    where c: "c = (name, quantity, unitPrice, totalPrice, desc)" by (cases c)
  let ?i = "i\<lparr>InvoiceIn := (InvoiceIn i)\<lparr>ItemsArr := ItemsArr (InvoiceIn i) @ [item_of_args c]\<rparr>\<rparr>"
  from Cons.prems c have fresh: "name \<notin> item_Name ` set (ItemsArr (InvoiceIn i))" by auto
  then have step: "AddItem name quantity unitPrice totalPrice desc i = (None, ?i)"
    unfolding c by (rule AddItem_fresh)
  from Cons.prems have d: "distinct (map fst calls)" by simp
  from Cons.prems c have "fst ` set calls \<inter> item_Name ` set (ItemsArr (InvoiceIn ?i)) = {}"
    by (auto simp: image_iff)
  with d have "AddItem_calls calls ?i =
     (replicate (length calls) None,
      ?i\<lparr>InvoiceIn := (InvoiceIn ?i)\<lparr>ItemsArr := ItemsArr (InvoiceIn ?i) @ map item_of_args calls\<rparr>\<rparr>)"
    by (rule Cons.IH)
  with step show ?case by (simp add: c)
qed

text \<open>
  C2. \<^verbatim>\<open>AddItem\<close> with a name that some element of \<^verbatim>\<open>ItemsArr\<close> already has returns an
  error and leaves the invoice as it was; with any other name it returns no error and
  appends the item built from its arguments at the end of \<^verbatim>\<open>ItemsArr\<close>. So a run of
  calls with pairwise distinct names on an invoice without items returns no error, and
  \<^verbatim>\<open>ItemsArr\<close> then holds one item per call, in the order of the calls.
\<close>

theorem AddItem_duplicate_or_append:
  "(name \<in> item_Name ` set (ItemsArr (InvoiceIn i)) \<longrightarrow>
      AddItem name quantity unitPrice totalPrice desc i =
        (Some (Errorf (''Invoice item with name '' @ name @ '' already exists'')), i)) \<and>
   (name \<notin> item_Name ` set (ItemsArr (InvoiceIn i)) \<longrightarrow>
      AddItem name quantity unitPrice totalPrice desc i =
        (None, i\<lparr>InvoiceIn := (InvoiceIn i)\<lparr>ItemsArr := ItemsArr (InvoiceIn i) @
           [\<lparr>item_Name = name, item_Quantity = quantity, item_UnitPrice = unitPrice,
             item_TotalPrice = totalPrice, item_Description = desc\<rparr>]\<rparr>\<rparr>)) \<and>
   (distinct (map fst calls) \<and> ItemsArr (InvoiceIn i) = [] \<longrightarrow>
      fst (AddItem_calls calls i) = replicate (length calls) None \<and>
      ItemsArr (InvoiceIn (snd (AddItem_calls calls i))) = map item_of_args calls \<and>
      length (ItemsArr (InvoiceIn (snd (AddItem_calls calls i)))) = length calls)"
proof (intro conjI impI)
  assume "name \<in> item_Name ` set (ItemsArr (InvoiceIn i))"
  then show "AddItem name quantity unitPrice totalPrice desc i =
      (Some (Errorf (''Invoice item with name '' @ name @ '' already exists'')), i)"
    by (rule AddItem_duplicate)
next
  assume "name \<notin> item_Name ` set (ItemsArr (InvoiceIn i))"
  then show "AddItem name quantity unitPrice totalPrice desc i =
        (None, i\<lparr>InvoiceIn := (InvoiceIn i)\<lparr>ItemsArr := ItemsArr (InvoiceIn i) @
           [\<lparr>item_Name = name, item_Quantity = quantity, item_UnitPrice = unitPrice,
             item_TotalPrice = totalPrice, item_Description = desc\<rparr>]\<rparr>\<rparr>)"
    by (simp add: AddItem_fresh)
next
  assume a: "distinct (map fst calls) \<and> ItemsArr (InvoiceIn i) = []"
  then have "AddItem_calls calls i =
     (replicate (length calls) None,
      i\<lparr>InvoiceIn := (InvoiceIn i)\<lparr>ItemsArr := ItemsArr (InvoiceIn i) @ map item_of_args calls\<rparr>\<rparr>)"
    by (intro AddItem_calls_distinct) simp_all
  with a show "fst (AddItem_calls calls i) = replicate (length calls) None"
    and "ItemsArr (InvoiceIn (snd (AddItem_calls calls i))) = map item_of_args calls"
    and "length (ItemsArr (InvoiceIn (snd (AddItem_calls calls i)))) = length calls"
    by simp_all
qed

theorem AddItem_duplicate_or_append_witness:
  "''B'' \<in> item_Name ` set (ItemsArr (InvoiceIn Invoice_ABC)) \<and>
   AddItem ''B'' 7 0 0 ''again'' Invoice_ABC =
     (Some (Errorf ''Invoice item with name B already exists''), Invoice_ABC) \<and>
   ''B'' \<notin> item_Name ` set (ItemsArr (InvoiceIn Invoice_edited)) \<and>
   fst (AddItem ''B'' 2 0x42480000 0x42C80000 ''second'' Invoice_edited) = None \<and>
   ItemsArr (InvoiceIn (snd (AddItem ''B'' 2 0x42480000 0x42C80000 ''second'' Invoice_edited))) =
     [item_A, item_C, item_B] \<and>
   distinct (map fst [(''A'', 1, 0x42480000, 0x42480000, ''first''), (''C'', 3 :: int, 0x42480000 :: float32, 0x43160000 :: float32, ''third'')]) \<and>
   fst (AddItem_calls [(''A'', 1, 0x42480000, 0x42480000, ''first''), (''C'', 3, 0x42480000, 0x43160000, ''third'')] Invoice_zero) = [None, None] \<and>
   ItemsArr (InvoiceIn (snd (AddItem_calls
       [(''A'', 1, 0x42480000, 0x42480000, ''first''), (''C'', 3, 0x42480000, 0x43160000, ''third'')] Invoice_zero))) =
     [item_A, item_C]"
proof -
  have b: "''B'' \<in> item_Name ` set (ItemsArr (InvoiceIn Invoice_ABC))"
    by (simp add: Invoice_ABC_def item_A_def item_B_def item_C_def)
  have nb: "''B'' \<notin> item_Name ` set (ItemsArr (InvoiceIn Invoice_edited))"
    by (simp add: Invoice_edited_def item_A_def item_C_def)
  have d: "distinct (map fst [(''A'', 1 :: int, 0x42480000 :: float32, 0x42480000 :: float32, ''first''),
      (''C'', 3, 0x42480000, 0x43160000, ''third'')]) \<and> ItemsArr (InvoiceIn Invoice_zero) = []"
    by (simp add: Invoice_zero_def)
  note dup = AddItem_duplicate_or_append[where name = "''B''" and i = Invoice_ABC and quantity = 7
      and unitPrice = 0 and totalPrice = 0 and desc = "''again''", THEN conjunct1, THEN mp, OF b]
  note app = AddItem_duplicate_or_append[where name = "''B''" and i = Invoice_edited and quantity = 2
      and unitPrice = "0x42480000" and totalPrice = "0x42C80000" and desc = "''second''",
      THEN conjunct2, THEN conjunct1, THEN mp, OF nb]
  note seq = AddItem_duplicate_or_append[where i = Invoice_zero and calls =
      "[(''A'', 1, 0x42480000, 0x42480000, ''first''), (''C'', 3, 0x42480000, 0x43160000, ''third'')]",
      THEN conjunct2, THEN conjunct2, THEN mp, OF d]
  from dup have 1: "AddItem ''B'' 7 0 0 ''again'' Invoice_ABC =
     (Some (Errorf ''Invoice item with name B already exists''), Invoice_ABC)" by simp
  from app have 2: "fst (AddItem ''B'' 2 0x42480000 0x42C80000 ''second'' Invoice_edited) = None"
    and 3: "ItemsArr (InvoiceIn (snd (AddItem ''B'' 2 0x42480000 0x42C80000 ''second'' Invoice_edited))) =
     [item_A, item_C, item_B]"
    by (simp_all add: Invoice_edited_def item_B_def)
  from seq have 4: "fst (AddItem_calls [(''A'', 1, 0x42480000, 0x42480000, ''first''), (''C'', 3, 0x42480000, 0x43160000, ''third'')] Invoice_zero) = [None, None]"
    and 5: "ItemsArr (InvoiceIn (snd (AddItem_calls
       [(''A'', 1, 0x42480000, 0x42480000, ''first''), (''C'', 3, 0x42480000, 0x43160000, ''third'')] Invoice_zero))) =
     [item_A, item_C]"
    by (simp_all add: item_A_def item_C_def numeral_2_eq_2)
  from b nb d 1 2 3 4 5 show ?thesis by (intro conjI) simp_all
qed

section \<open>Removing items and taxes (C3)\<close>

lemma RemoveItem_loop_absent:
  "name \<notin> item_Name ` set rest \<Longrightarrow> RemoveItem_loop name ix rest arr = arr"
  by (induction rest arbitrary: ix) auto

lemma RemoveItem_loop_first:
  "name \<notin> item_Name ` set pre \<Longrightarrow> item_Name x = name \<Longrightarrow>
   RemoveItem_loop name ix (pre @ x # post) arr =
     take (ix + length pre) arr @ drop (ix + length pre + 1) arr"
  by (induction pre arbitrary: ix) auto

lemma RemoveTax_loop_absent:
  "name \<notin> tax_Name ` set rest \<Longrightarrow> RemoveTax_loop name ix rest arr = arr"
  by (induction rest arbitrary: ix) auto

lemma RemoveTax_loop_first:
  "name \<notin> tax_Name ` set pre \<Longrightarrow> tax_Name x = name \<Longrightarrow>
   RemoveTax_loop name ix (pre @ x # post) arr =
     take (ix + length pre) arr @ drop (ix + length pre + 1) arr"
  by (induction pre arbitrary: ix) auto

lemma first_match:
  "name \<in> f ` set arr \<Longrightarrow> \<exists>pre x post. arr = pre @ x # post \<and> f x = name \<and> name \<notin> f ` set pre"
proof -
  assume "name \<in> f ` set arr"
  then have "\<exists>x \<in> set arr. f x = name" by auto
  then have "\<exists>pre x post. arr = pre @ x # post \<and> f x = name \<and> (\<forall>y \<in> set pre. \<not> f y = name)"
    by (rule split_list_first_prop)
  then obtain pre x post where "arr = pre @ x # post" "f x = name" "\<forall>y \<in> set pre. f y \<noteq> name"
    by blast
  then show ?thesis by (intro exI[of _ pre] exI[of _ x] exI[of _ post]) auto
qed

lemma RemoveItem_loop_cases:
  "(name \<notin> item_Name ` set arr \<and> RemoveItem_loop name 0 arr arr = arr) \<or>
   (\<exists>pre x post. arr = pre @ x # post \<and> item_Name x = name \<and> name \<notin> item_Name ` set pre \<and>
      RemoveItem_loop name 0 arr arr = pre @ post)"
proof (cases "name \<in> item_Name ` set arr")
  case False
  then show ?thesis by (simp add: RemoveItem_loop_absent)
next
  case True
  then obtain pre x post where s: "arr = pre @ x # post" "item_Name x = name" "name \<notin> item_Name ` set pre"
    using first_match[of name item_Name arr] by blast
  then have "RemoveItem_loop name 0 arr arr = pre @ post"
    by (simp add: RemoveItem_loop_first)
  with s show ?thesis by blast
qed

lemma RemoveTax_loop_cases:
  "(name \<notin> tax_Name ` set arr \<and> RemoveTax_loop name 0 arr arr = arr) \<or>
   (\<exists>pre x post. arr = pre @ x # post \<and> tax_Name x = name \<and> name \<notin> tax_Name ` set pre \<and>
      RemoveTax_loop name 0 arr arr = pre @ post)"
proof (cases "name \<in> tax_Name ` set arr")
  case False
  then show ?thesis by (simp add: RemoveTax_loop_absent)
next
  case True
  then obtain pre x post where s: "arr = pre @ x # post" "tax_Name x = name" "name \<notin> tax_Name ` set pre"
    using first_match[of name tax_Name arr] by blast
  then have "RemoveTax_loop name 0 arr arr = pre @ post"
    by (simp add: RemoveTax_loop_first)
  with s show ?thesis by blast
qed

text \<open>
  C3. \<^verbatim>\<open>RemoveItem\<close> with a name that no element of \<^verbatim>\<open>ItemsArr\<close> has changes nothing.
  Otherwise it takes out the first element with that name: the elements before it and
  after it stay, in their order, so the length goes down by exactly one. Nothing but
  \<^verbatim>\<open>ItemsArr\<close> changes. \<^verbatim>\<open>RemoveTax\<close> does the same on \<^verbatim>\<open>TaxesArr\<close>.
\<close>

theorem Remove_first_match:
  "(name \<notin> item_Name ` set (ItemsArr (InvoiceIn i)) \<longrightarrow> RemoveItem name i = i) \<and>
   (name \<in> item_Name ` set (ItemsArr (InvoiceIn i)) \<longrightarrow>
      (\<exists>pre x post. ItemsArr (InvoiceIn i) = pre @ x # post \<and> item_Name x = name \<and>
         name \<notin> item_Name ` set pre \<and> ItemsArr (InvoiceIn (RemoveItem name i)) = pre @ post) \<and>
      length (ItemsArr (InvoiceIn (RemoveItem name i))) + 1 = length (ItemsArr (InvoiceIn i))) \<and>
   RemoveItem name i =
     i\<lparr>InvoiceIn := (InvoiceIn i)\<lparr>ItemsArr := ItemsArr (InvoiceIn (RemoveItem name i))\<rparr>\<rparr> \<and>
   (name \<notin> tax_Name ` set (TaxesArr (InvoiceIn i)) \<longrightarrow> RemoveTax name i = i) \<and>
   (name \<in> tax_Name ` set (TaxesArr (InvoiceIn i)) \<longrightarrow>
      (\<exists>pre x post. TaxesArr (InvoiceIn i) = pre @ x # post \<and> tax_Name x = name \<and>
         name \<notin> tax_Name ` set pre \<and> TaxesArr (InvoiceIn (RemoveTax name i)) = pre @ post) \<and>
      length (TaxesArr (InvoiceIn (RemoveTax name i))) + 1 = length (TaxesArr (InvoiceIn i))) \<and>
   RemoveTax name i =
     i\<lparr>InvoiceIn := (InvoiceIn i)\<lparr>TaxesArr := TaxesArr (InvoiceIn (RemoveTax name i))\<rparr>\<rparr>"
proof -
  have items: "ItemsArr (InvoiceIn (RemoveItem name i)) =
      RemoveItem_loop name 0 (ItemsArr (InvoiceIn i)) (ItemsArr (InvoiceIn i))"
    by (simp add: RemoveItem_def)
  have taxes: "TaxesArr (InvoiceIn (RemoveTax name i)) =
      RemoveTax_loop name 0 (TaxesArr (InvoiceIn i)) (TaxesArr (InvoiceIn i))"
    by (simp add: RemoveTax_def)
  have 1: "name \<notin> item_Name ` set (ItemsArr (InvoiceIn i)) \<longrightarrow> RemoveItem name i = i"
    by (simp add: RemoveItem_def RemoveItem_loop_absent)
  have 2: "name \<in> item_Name ` set (ItemsArr (InvoiceIn i)) \<longrightarrow>
      (\<exists>pre x post. ItemsArr (InvoiceIn i) = pre @ x # post \<and> item_Name x = name \<and>
         name \<notin> item_Name ` set pre \<and> ItemsArr (InvoiceIn (RemoveItem name i)) = pre @ post) \<and>
      length (ItemsArr (InvoiceIn (RemoveItem name i))) + 1 = length (ItemsArr (InvoiceIn i))"
    using RemoveItem_loop_cases[of name "ItemsArr (InvoiceIn i)"] unfolding items by force
  have 3: "RemoveItem name i =
     i\<lparr>InvoiceIn := (InvoiceIn i)\<lparr>ItemsArr := ItemsArr (InvoiceIn (RemoveItem name i))\<rparr>\<rparr>"
    by (simp add: RemoveItem_def)
  have 4: "name \<notin> tax_Name ` set (TaxesArr (InvoiceIn i)) \<longrightarrow> RemoveTax name i = i"
    by (simp add: RemoveTax_def RemoveTax_loop_absent)
  have 5: "name \<in> tax_Name ` set (TaxesArr (InvoiceIn i)) \<longrightarrow>
      (\<exists>pre x post. TaxesArr (InvoiceIn i) = pre @ x # post \<and> tax_Name x = name \<and>
         name \<notin> tax_Name ` set pre \<and> TaxesArr (InvoiceIn (RemoveTax name i)) = pre @ post) \<and>
      length (TaxesArr (InvoiceIn (RemoveTax name i))) + 1 = length (TaxesArr (InvoiceIn i))"
    using RemoveTax_loop_cases[of name "TaxesArr (InvoiceIn i)"] unfolding taxes by force
  have 6: "RemoveTax name i =
     i\<lparr>InvoiceIn := (InvoiceIn i)\<lparr>TaxesArr := TaxesArr (InvoiceIn (RemoveTax name i))\<rparr>\<rparr>"
    by (simp add: RemoveTax_def)
  from 1 2 3 4 5 6 show ?thesis by (intro conjI)
qed

theorem Remove_first_match_witness:
  "''B'' \<in> item_Name ` set (ItemsArr (InvoiceIn Invoice_ABC)) \<and>
   (\<exists>pre x post. ItemsArr (InvoiceIn Invoice_ABC) = pre @ x # post \<and> item_Name x = ''B'' \<and>
      ''B'' \<notin> item_Name ` set pre \<and> ItemsArr (InvoiceIn (RemoveItem ''B'' Invoice_ABC)) = pre @ post) \<and>
   length (ItemsArr (InvoiceIn (RemoveItem ''B'' Invoice_ABC))) + 1 = 3 \<and>
   ItemsArr (InvoiceIn (RemoveItem ''B'' Invoice_ABC)) = [item_A, item_C] \<and>
   ''B'' \<notin> item_Name ` set (ItemsArr (InvoiceIn Invoice_edited)) \<and>
   RemoveItem ''B'' Invoice_edited = Invoice_edited \<and>
   ''VAT'' \<in> tax_Name ` set (TaxesArr (InvoiceIn Invoice_ABC)) \<and>
   length (TaxesArr (InvoiceIn (RemoveTax ''VAT'' Invoice_ABC))) + 1 = 1 \<and>
   ''GST'' \<notin> tax_Name ` set (TaxesArr (InvoiceIn Invoice_ABC)) \<and>
   RemoveTax ''GST'' Invoice_ABC = Invoice_ABC"
proof -
  note rm = Remove_first_match[of "''B''" Invoice_ABC]
  note rm' = Remove_first_match[of "''B''" Invoice_edited]
  note rt = Remove_first_match[of "''VAT''" Invoice_ABC]
  note rt' = Remove_first_match[of "''GST''" Invoice_ABC]
  have b: "''B'' \<in> item_Name ` set (ItemsArr (InvoiceIn Invoice_ABC))"
    by (simp add: Invoice_ABC_def item_A_def item_B_def item_C_def)
  have nb: "''B'' \<notin> item_Name ` set (ItemsArr (InvoiceIn Invoice_edited))"
    by (simp add: Invoice_edited_def item_A_def item_C_def)
  have v: "''VAT'' \<in> tax_Name ` set (TaxesArr (InvoiceIn Invoice_ABC))"
    by (simp add: Invoice_ABC_def tax_VAT_def)
  have nv: "''GST'' \<notin> tax_Name ` set (TaxesArr (InvoiceIn Invoice_ABC))"
    by (simp add: Invoice_ABC_def tax_VAT_def)
  note i2 = rm[THEN conjunct2, THEN conjunct1, THEN mp, OF b]
  note i1 = rm'[THEN conjunct1, THEN mp, OF nb]
  note t2 = rt[THEN conjunct2, THEN conjunct2, THEN conjunct2, THEN conjunct2, THEN conjunct1, THEN mp, OF v]
  note t1 = rt'[THEN conjunct2, THEN conjunct2, THEN conjunct2, THEN conjunct1, THEN mp, OF nv]
  have l: "length (ItemsArr (InvoiceIn Invoice_ABC)) = 3" "length (TaxesArr (InvoiceIn Invoice_ABC)) = 1"
    by (simp_all add: Invoice_ABC_def)
  have e: "ItemsArr (InvoiceIn (RemoveItem ''B'' Invoice_ABC)) = [item_A, item_C]"
    by (simp add: RemoveItem_def Invoice_ABC_def item_A_def item_B_def item_C_def)
  from i2 l have "length (ItemsArr (InvoiceIn (RemoveItem ''B'' Invoice_ABC))) + 1 = 3" by simp
  moreover from t2 l have "length (TaxesArr (InvoiceIn (RemoveTax ''VAT'' Invoice_ABC))) + 1 = 1" by simp
  moreover note b nb v nv i1 t1 e i2[THEN conjunct1]
  ultimately show ?thesis by (intro conjI)
qed

section \<open>Finalizing twice (C4)\<close>

text \<open>
  C4. When \<^verbatim>\<open>PrepareForRequest\<close> has returned, calling it again at once returns the very
  same invoice: the second call changes nothing, the transmission maps included.
\<close>

theorem PrepareForRequest_idempotent:
  "(Mutex i = Unlocked \<longrightarrow> (\<exists>i'. PrepareForRequest i = Returns i')) \<and>
   (\<forall>i'. PrepareForRequest i = Returns i' \<longrightarrow> PrepareForRequest i' = Returns i')"
proof (cases "Mutex i")
  case Locked
  then show ?thesis by (simp add: PrepareForRequest_blocks)
next
  case Unlocked
  then show ?thesis by (simp add: PrepareForRequest_returns)
qed

theorem PrepareForRequest_idempotent_witness:
  "\<exists>i'. PrepareForRequest Invoice_edited = Returns i' \<and> PrepareForRequest i' = Returns i'"
proof -
  note idem = PrepareForRequest_idempotent[of Invoice_edited]
  have u: "Mutex Invoice_edited = Unlocked" by (simp add: Invoice_edited_def)
  from idem have "Mutex Invoice_edited = Unlocked \<longrightarrow> (\<exists>i'. PrepareForRequest Invoice_edited = Returns i')"
    by (rule conjunct1)
  with u obtain i' where r: "PrepareForRequest Invoice_edited = Returns i'" by (elim impE exE)
  from idem[THEN conjunct2, THEN spec, THEN mp, OF r]
  have again: "PrepareForRequest i' = Returns i'" .
  from r again show ?thesis by blast
qed

section \<open>Clearing (C7)\<close>

text \<open>
  C7. \<^verbatim>\<open>ClearAllItems\<close> leaves \<^verbatim>\<open>ItemsArr\<close> empty and \<^verbatim>\<open>Items\<close> an empty map, and a
  \<^verbatim>\<open>PrepareForRequest\<close> that follows returns with \<^verbatim>\<open>Items\<close> an empty map;
  \<^verbatim>\<open>ClearAllTaxes\<close> does the same for \<^verbatim>\<open>TaxesArr\<close> and \<^verbatim>\<open>Taxes\<close>, and \<^verbatim>\<open>Clear\<close> leaves
  all four empty.
\<close>

theorem Clear_empties:
  "ItemsArr (InvoiceIn (ClearAllItems i)) = [] \<and>
   Items (InvoiceIn (ClearAllItems i)) = Some Map.empty \<and>
   (Mutex i = Unlocked \<longrightarrow> (\<exists>i'. PrepareForRequest (ClearAllItems i) = Returns i')) \<and>
   (\<forall>i'. PrepareForRequest (ClearAllItems i) = Returns i' \<longrightarrow>
      Items (InvoiceIn i') = Some Map.empty) \<and>
   TaxesArr (InvoiceIn (ClearAllTaxes i)) = [] \<and>
   Taxes (InvoiceIn (ClearAllTaxes i)) = Some Map.empty \<and>
   (Mutex i = Unlocked \<longrightarrow> (\<exists>i'. PrepareForRequest (ClearAllTaxes i) = Returns i')) \<and>
   (\<forall>i'. PrepareForRequest (ClearAllTaxes i) = Returns i' \<longrightarrow>
      Taxes (InvoiceIn i') = Some Map.empty) \<and>
   ItemsArr (InvoiceIn (Clear i)) = [] \<and> TaxesArr (InvoiceIn (Clear i)) = [] \<and>
   Items (InvoiceIn (Clear i)) = Some Map.empty \<and> Taxes (InvoiceIn (Clear i)) = Some Map.empty"
proof (cases "Mutex i")
  case Locked
  then show ?thesis
    by (simp add: PrepareForRequest_blocks ClearAllItems_def ClearAllTaxes_def Clear_def make_map_def)
next
  case Unlocked
  then show ?thesis
    by (simp add: PrepareForRequest_returns ClearAllItems_def ClearAllTaxes_def Clear_def make_map_def)
qed

theorem Clear_empties_witness:
  "ItemsArr (InvoiceIn (ClearAllItems Invoice_edited)) = [] \<and>
   Items (InvoiceIn (ClearAllItems Invoice_edited)) = Some Map.empty \<and>
   TaxesArr (InvoiceIn (ClearAllItems Invoice_edited)) = [tax_VAT] \<and>
   (\<exists>i'. PrepareForRequest (ClearAllItems Invoice_edited) = Returns i' \<and>
      Items (InvoiceIn i') = Some Map.empty) \<and>
   (\<exists>i'. PrepareForRequest (ClearAllTaxes Invoice_edited) = Returns i' \<and>
      Taxes (InvoiceIn i') = Some Map.empty)"
proof -
  note ce = Clear_empties[of Invoice_edited]
  have u: "Mutex Invoice_edited = Unlocked" by (simp add: Invoice_edited_def)
  note c3 = ce[THEN conjunct2, THEN conjunct2, THEN conjunct1]
  note c4 = ce[THEN conjunct2, THEN conjunct2, THEN conjunct2, THEN conjunct1]
  note c7 = ce[THEN conjunct2, THEN conjunct2, THEN conjunct2, THEN conjunct2, THEN conjunct2,
      THEN conjunct2, THEN conjunct1]
  note c8 = ce[THEN conjunct2, THEN conjunct2, THEN conjunct2, THEN conjunct2, THEN conjunct2,
      THEN conjunct2, THEN conjunct2, THEN conjunct1]
  from c3 u obtain i1 where r1: "PrepareForRequest (ClearAllItems Invoice_edited) = Returns i1"
    by (elim impE exE)
  from c4[THEN spec, THEN mp, OF r1] have e1: "Items (InvoiceIn i1) = Some Map.empty" .
  from c7 u obtain i2 where r2: "PrepareForRequest (ClearAllTaxes Invoice_edited) = Returns i2"
    by (elim impE exE)
  from c8[THEN spec, THEN mp, OF r2] have e2: "Taxes (InvoiceIn i2) = Some Map.empty" .
  have "TaxesArr (InvoiceIn (ClearAllItems Invoice_edited)) = [tax_VAT]"
    by (simp add: ClearAllItems_def Invoice_edited_def)
  moreover note ce[THEN conjunct1] ce[THEN conjunct2, THEN conjunct1]
  ultimately show ?thesis using r1 e1 r2 e2 by blast
qed

section \<open>Editing leaves the transmission maps alone (C8)\<close>

text \<open>
  C8. \<^verbatim>\<open>AddItem\<close> (whether it returns an error or not) and \<^verbatim>\<open>RemoveItem\<close> leave
  \<^verbatim>\<open>Items\<close> and \<^verbatim>\<open>Taxes\<close> as they were.
\<close>

theorem AddItem_RemoveItem_lazy:
  "Items (InvoiceIn (snd (AddItem name quantity unitPrice totalPrice desc i))) = Items (InvoiceIn i) \<and>
   Taxes (InvoiceIn (snd (AddItem name quantity unitPrice totalPrice desc i))) = Taxes (InvoiceIn i) \<and>
   Items (InvoiceIn (RemoveItem name i)) = Items (InvoiceIn i) \<and>
   Taxes (InvoiceIn (RemoveItem name i)) = Taxes (InvoiceIn i)"
  by (simp add: AddItem_def RemoveItem_def Let_def)

section \<open>What finalization leaves alone (C10)\<close>

text \<open>
  C10. When \<^verbatim>\<open>PrepareForRequest\<close> returns, the invoice differs from the one it was
  called on in \<^verbatim>\<open>Items\<close> and \<^verbatim>\<open>Taxes\<close> only: the two slices, the description, the
  total amount, the actions, the custom data, the store, the setup and the mutex are as
  before, and a further \<^verbatim>\<open>PrepareForRequest\<close> returns again.
\<close>

theorem PrepareForRequest_frame:
  "(Mutex i = Unlocked \<longrightarrow> (\<exists>i'. PrepareForRequest i = Returns i')) \<and>
   (\<forall>i'. PrepareForRequest i = Returns i' \<longrightarrow>
      ItemsArr (InvoiceIn i') = ItemsArr (InvoiceIn i) \<and>
      TaxesArr (InvoiceIn i') = TaxesArr (InvoiceIn i) \<and>
      Description (InvoiceIn i') = Description (InvoiceIn i) \<and>
      TotalAmount (InvoiceIn i') = TotalAmount (InvoiceIn i) \<and>
      Actions (InvoiceIn i') = Actions (InvoiceIn i) \<and>
      CustomData i' = CustomData i \<and> Store i' = Store i \<and> Setup i' = Setup i \<and>
      Mutex i' = Mutex i \<and>
      i' = i\<lparr>InvoiceIn := (InvoiceIn i)\<lparr>Items := Items (InvoiceIn i'), Taxes := Taxes (InvoiceIn i')\<rparr>\<rparr> \<and>
      (\<exists>i''. PrepareForRequest i' = Returns i''))"
proof (cases "Mutex i")
  case Locked
  then show ?thesis by (simp add: PrepareForRequest_blocks)
next
  case Unlocked
  then show ?thesis by (simp add: PrepareForRequest_returns)
qed

theorem PrepareForRequest_frame_witness:
  "\<exists>i'. PrepareForRequest Invoice_edited = Returns i' \<and>
     ItemsArr (InvoiceIn i') = [item_A, item_C] \<and> TaxesArr (InvoiceIn i') = [tax_VAT] \<and>
     Description (InvoiceIn i') = ''order'' \<and> TotalAmount (InvoiceIn i') = 0x43160000 \<and>
     CustomData i' = None \<and> Store i' = () \<and> Setup i' = () \<and> Mutex i' = Unlocked"
proof -
  note fr = PrepareForRequest_frame[of Invoice_edited]
  have u: "Mutex Invoice_edited = Unlocked" by (simp add: Invoice_edited_def)
  from fr have "Mutex Invoice_edited = Unlocked \<longrightarrow> (\<exists>i'. PrepareForRequest Invoice_edited = Returns i')"
    by (rule conjunct1)
  with u obtain i' where r: "PrepareForRequest Invoice_edited = Returns i'" by (elim impE exE)
  from fr[THEN conjunct2, THEN spec, THEN mp, OF r]
  have "ItemsArr (InvoiceIn i') = [item_A, item_C] \<and> TaxesArr (InvoiceIn i') = [tax_VAT] \<and>
     Description (InvoiceIn i') = ''order'' \<and> TotalAmount (InvoiceIn i') = 0x43160000 \<and>
     CustomData i' = None \<and> Store i' = () \<and> Setup i' = () \<and> Mutex i' = Unlocked"
    by (simp add: Invoice_edited_def)
  with r show ?thesis by blast
qed

section \<open>Names stay unique (C5)\<close>

lemma RemoveItem_unique: "names_unique i \<Longrightarrow> names_unique (RemoveItem name i)"
  using RemoveItem_loop_cases[of name "ItemsArr (InvoiceIn i)"]
  by (auto simp: names_unique_def RemoveItem_def)

lemma RemoveTax_unique: "names_unique i \<Longrightarrow> names_unique (RemoveTax name i)"
  using RemoveTax_loop_cases[of name "TaxesArr (InvoiceIn i)"]
  by (auto simp: names_unique_def RemoveTax_def)

lemma AddItem_unique:
  "names_unique i \<Longrightarrow> names_unique (snd (AddItem name quantity unitPrice totalPrice desc i))"
  by (auto simp: names_unique_def AddItem_def AddItem_exists_iff item_zero_def)

lemma AddTax_unique: "names_unique i \<Longrightarrow> names_unique (snd (AddTax name amount i))"
  by (auto simp: names_unique_def AddTax_def AddTax_exists_iff tax_zero_def)

lemma edit_Mutex:
  "Mutex (snd (AddItem name quantity unitPrice totalPrice desc i)) = Mutex i"
  "Mutex (snd (AddTax name amount i)) = Mutex i"
  "Mutex (RemoveItem name i) = Mutex i" "Mutex (RemoveTax name i) = Mutex i"
  "Mutex (ClearAllItems i) = Mutex i" "Mutex (ClearAllTaxes i) = Mutex i" "Mutex (Clear i) = Mutex i"
  by (simp_all add: AddItem_def AddTax_def RemoveItem_def RemoveTax_def ClearAllItems_def
      ClearAllTaxes_def Clear_def Let_def)

lemma Clear_unique:
  "names_unique i \<Longrightarrow> names_unique (ClearAllItems i)"
  "names_unique i \<Longrightarrow> names_unique (ClearAllTaxes i)"
  "names_unique (Clear i)"
  by (simp_all add: names_unique_def ClearAllItems_def ClearAllTaxes_def Clear_def)

lemma do_call_unique:
  assumes "names_unique i" and "Mutex i = Unlocked"
  shows "\<exists>i'. do_call c i = Returns i' \<and> names_unique i' \<and> Mutex i' = Unlocked"
proof (cases c)
  case PrepareForRequest_call
  with assms show ?thesis by (simp add: PrepareForRequest_returns names_unique_def)
qed (use assms in \<open>simp_all add: edit_Mutex AddItem_unique AddTax_unique RemoveItem_unique
      RemoveTax_unique Clear_unique\<close>)

lemma do_calls_unique:
  "names_unique i \<Longrightarrow> Mutex i = Unlocked \<Longrightarrow>
   \<exists>i'. do_calls cs i = Returns i' \<and> names_unique i' \<and> Mutex i' = Unlocked"
proof (induction cs arbitrary: i)
  case Nil
  then show ?case by simp
next
  case (Cons c cs)
  from do_call_unique[OF Cons.prems, of c] obtain i1
    where 1: "do_call c i = Returns i1" "names_unique i1" "Mutex i1 = Unlocked" by blast
  from Cons.IH[OF 1(2,3)] obtain i'
    where 2: "do_calls cs i1 = Returns i'" "names_unique i'" "Mutex i' = Unlocked" by blast
  from 1 2 show ?case by (simp add: outcome_bind_def)
qed

text \<open>
  C5. On an invoice without items and taxes whose mutex is free, every run of
  \<^verbatim>\<open>AddItem\<close>, \<^verbatim>\<open>RemoveItem\<close>, \<^verbatim>\<open>ClearAllItems\<close>, \<^verbatim>\<open>AddTax\<close>, \<^verbatim>\<open>RemoveTax\<close>,
  \<^verbatim>\<open>ClearAllTaxes\<close>, \<^verbatim>\<open>Clear\<close> and \<^verbatim>\<open>PrepareForRequest\<close> calls returns, and afterwards
  the names in \<^verbatim>\<open>ItemsArr\<close> are pairwise distinct and so are the names in \<^verbatim>\<open>TaxesArr\<close>.
  It is the insertion that keeps them so: \<^verbatim>\<open>AddItem\<close> and \<^verbatim>\<open>AddTax\<close> take distinct names
  to distinct names. The conversion checks nothing: \<^verbatim>\<open>PrepareForRequest\<close> returns on any
  invoice whose mutex is free and leaves both slices as they are.
\<close>

theorem names_stay_unique:
  "(ItemsArr (InvoiceIn i) = [] \<and> TaxesArr (InvoiceIn i) = [] \<and> Mutex i = Unlocked \<longrightarrow>
      (\<exists>i'. do_calls cs i = Returns i' \<and>
         distinct (map item_Name (ItemsArr (InvoiceIn i'))) \<and>
         distinct (map tax_Name (TaxesArr (InvoiceIn i'))))) \<and>
   (distinct (map item_Name (ItemsArr (InvoiceIn i))) \<longrightarrow>
      distinct (map item_Name (ItemsArr (InvoiceIn (snd (AddItem name quantity unitPrice totalPrice desc i)))))) \<and>
   (distinct (map tax_Name (TaxesArr (InvoiceIn i))) \<longrightarrow>
      distinct (map tax_Name (TaxesArr (InvoiceIn (snd (AddTax name amount i)))))) \<and>
   (Mutex i = Unlocked \<longrightarrow>
      (\<exists>i'. PrepareForRequest i = Returns i' \<and>
         ItemsArr (InvoiceIn i') = ItemsArr (InvoiceIn i) \<and>
         TaxesArr (InvoiceIn i') = TaxesArr (InvoiceIn i)))"
proof (intro conjI impI)
  assume "ItemsArr (InvoiceIn i) = [] \<and> TaxesArr (InvoiceIn i) = [] \<and> Mutex i = Unlocked"
  then have "names_unique i" "Mutex i = Unlocked" by (simp_all add: names_unique_def)
  then have "\<exists>i'. do_calls cs i = Returns i' \<and> names_unique i' \<and> Mutex i' = Unlocked"
    by (rule do_calls_unique)
  then show "\<exists>i'. do_calls cs i = Returns i' \<and>
         distinct (map item_Name (ItemsArr (InvoiceIn i'))) \<and>
         distinct (map tax_Name (TaxesArr (InvoiceIn i')))"
    by (auto simp: names_unique_def)
next
  assume "distinct (map item_Name (ItemsArr (InvoiceIn i)))"
  then show "distinct (map item_Name (ItemsArr (InvoiceIn (snd (AddItem name quantity unitPrice totalPrice desc i)))))"
    by (auto simp: AddItem_def AddItem_exists_iff item_zero_def)
next
  assume "distinct (map tax_Name (TaxesArr (InvoiceIn i)))"
  then show "distinct (map tax_Name (TaxesArr (InvoiceIn (snd (AddTax name amount i)))))"
    by (auto simp: AddTax_def AddTax_exists_iff tax_zero_def)
next
  assume "Mutex i = Unlocked"
  then show "\<exists>i'. PrepareForRequest i = Returns i' \<and>
         ItemsArr (InvoiceIn i') = ItemsArr (InvoiceIn i) \<and>
         TaxesArr (InvoiceIn i') = TaxesArr (InvoiceIn i)"
    by (simp add: PrepareForRequest_returns)
qed

theorem names_stay_unique_witness:
  "ItemsArr (InvoiceIn Invoice_zero) = [] \<and> TaxesArr (InvoiceIn Invoice_zero) = [] \<and>
   Mutex Invoice_zero = Unlocked \<and>
   (\<exists>i'. do_calls client_calls Invoice_zero = Returns i' \<and>
      distinct (map item_Name (ItemsArr (InvoiceIn i'))) \<and>
      distinct (map tax_Name (TaxesArr (InvoiceIn i')))) \<and>
   distinct (map item_Name (ItemsArr (InvoiceIn Invoice_edited))) \<and>
   distinct (map item_Name (ItemsArr (InvoiceIn (snd (AddItem ''C'' 1 0 0 [] Invoice_edited))))) \<and>
   distinct (map tax_Name (TaxesArr (InvoiceIn (snd (AddTax ''VAT'' 0 Invoice_edited))))) \<and>
   \<not> distinct (map item_Name (ItemsArr (InvoiceIn Invoice_twice))) \<and>
   (\<exists>i'. PrepareForRequest Invoice_twice = Returns i' \<and>
      ItemsArr (InvoiceIn i') = [item_A, item_A])"
proof -
  have z: "ItemsArr (InvoiceIn Invoice_zero) = [] \<and> TaxesArr (InvoiceIn Invoice_zero) = [] \<and>
      Mutex Invoice_zero = Unlocked"
    by (simp add: Invoice_zero_def)
  have e: "distinct (map item_Name (ItemsArr (InvoiceIn Invoice_edited)))"
    and t: "distinct (map tax_Name (TaxesArr (InvoiceIn Invoice_edited)))"
    by (simp_all add: Invoice_edited_def item_A_def item_C_def)
  have u: "Mutex Invoice_twice = Unlocked"
    and a: "ItemsArr (InvoiceIn Invoice_twice) = [item_A, item_A]"
    by (simp_all add: Invoice_twice_def)
  note run = names_stay_unique[where i = Invoice_zero and cs = client_calls,
      THEN conjunct1, THEN mp, OF z]
  note add = names_stay_unique[where i = Invoice_edited and name = "''C''" and quantity = 1
      and unitPrice = 0 and totalPrice = 0 and desc = "[]",
      THEN conjunct2, THEN conjunct1, THEN mp, OF e]
  note addt = names_stay_unique[where i = Invoice_edited and name = "''VAT''" and amount = 0,
      THEN conjunct2, THEN conjunct2, THEN conjunct1, THEN mp, OF t]
  note conv = names_stay_unique[where i = Invoice_twice,
      THEN conjunct2, THEN conjunct2, THEN conjunct2, THEN mp, OF u]
  from conv a have c: "\<exists>i'. PrepareForRequest Invoice_twice = Returns i' \<and>
      ItemsArr (InvoiceIn i') = [item_A, item_A]" by auto
  have n: "\<not> distinct (map item_Name (ItemsArr (InvoiceIn Invoice_twice)))"
    by (simp add: a)
  from z run e add addt n c show ?thesis by (intro conjI) simp_all
qed

section \<open>Description and total amount (C6)\<close>

lemma zero_not_NaN: "float32_isZero w \<Longrightarrow> \<not> float32_isNaN w"
proof -
  assume z: "float32_isZero w"
  have "w AND 0x7F800000 = w AND (0x7FFFFFFF AND 0x7F800000)" by simp
  also have "\<dots> = (w AND 0x7FFFFFFF) AND 0x7F800000" by (simp only: and.assoc)
  also have "\<dots> = 0" using z by (simp add: float32_isZero_def)
  finally show ?thesis by (simp add: float32_isNaN_def)
qed

lemma float32_eq_zero: "float32_eq amt 0 \<longleftrightarrow> float32_isZero amt"
  using zero_not_NaN[of amt] by (auto simp: float32_eq_def float32_isNaN_def float32_isZero_def)

lemma isZero_cases: "float32_isZero w \<longleftrightarrow> w = 0 \<or> w = 0x80000000"
proof
  assume "w = 0 \<or> w = 0x80000000"
  then show "float32_isZero w" by (auto simp: float32_isZero_def)
next
  assume z: "float32_isZero w"
  have m: "(0x7FFFFFFF :: 32 word) = mask 31" by (simp add: mask_eq_exp_minus_1)
  from z have "take_bit 31 w = 0" by (simp add: float32_isZero_def m take_bit_eq_mask)
  then have "unat (take_bit 31 w) = 0" by simp
  then have "take_bit 31 (unat w) = 0" by (simp only: unsigned_take_bit_eq)
  then have "unat w mod 2 ^ 31 = 0" by (simp only: take_bit_eq_mod)
  then have "(2::nat) ^ 31 dvd unat w" by (simp only: dvd_eq_mod_eq_0)
  then obtain k where k: "unat w = 2 ^ 31 * k" by (rule dvdE)
  have "unat w < 2 ^ 31 * 2" using unsigned_less[of w] by simp
  with k have "k < 2" by (simp only: mult_less_cancel1)
  then have "k = 0 \<or> k = 1" by auto
  with k have "unat w = 0 \<or> unat w = 2147483648" by auto
  moreover have "w = of_nat (unat w)" by simp
  ultimately have "w = of_nat 0 \<or> w = of_nat 2147483648" by metis
  then show "w = 0 \<or> w = 0x80000000" by simp
qed

text \<open>
  C6. \<^verbatim>\<open>SetDescription\<close> panics exactly when its argument is the empty string, and
  otherwise returns with the description set to the argument. \<^verbatim>\<open>SetTotalAmount\<close> panics
  exactly when its argument equals zero (as \<^verbatim>\<open>==\<close> on \<^verbatim>\<open>float32\<close> has it: the bit patterns
  of \<open>+0\<close> and \<open>-0\<close>), and otherwise returns with the total amount set to the argument.
\<close>

theorem Set_preconditions:
  "(SetDescription desc i = Panics ''provide the description argument'' \<longleftrightarrow> desc = []) \<and>
   (desc \<noteq> [] \<longrightarrow>
      SetDescription desc i = Returns (i\<lparr>InvoiceIn := (InvoiceIn i)\<lparr>Description := desc\<rparr>\<rparr>)) \<and>
   (SetTotalAmount amt i = Panics ''provide the totalAmount argument'' \<longleftrightarrow> float32_eq amt 0) \<and>
   (float32_eq amt 0 \<longleftrightarrow> amt = 0 \<or> amt = 0x80000000) \<and>
   (\<not> float32_eq amt 0 \<longrightarrow>
      SetTotalAmount amt i = Returns (i\<lparr>InvoiceIn := (InvoiceIn i)\<lparr>TotalAmount := amt\<rparr>\<rparr>))"
proof -
  have "float32_eq amt 0 \<longleftrightarrow> amt = 0 \<or> amt = 0x80000000"
    by (simp only: float32_eq_zero isZero_cases)
  then show ?thesis by (simp add: SetDescription_def SetTotalAmount_def)
qed

theorem Set_preconditions_witness:
  "SetDescription [] Invoice_zero = Panics ''provide the description argument'' \<and>
   (\<exists>i'. SetDescription ''Hello World'' Invoice_zero = Returns i' \<and>
      Description (InvoiceIn i') = ''Hello World'') \<and>
   SetTotalAmount 0 Invoice_zero = Panics ''provide the totalAmount argument'' \<and>
   SetTotalAmount 0x80000000 Invoice_zero = Panics ''provide the totalAmount argument'' \<and>
   (\<exists>i'. SetTotalAmount 0x422A0000 Invoice_zero = Returns i' \<and>
      TotalAmount (InvoiceIn i') = 0x422A0000)"
proof -
  note d0 = Set_preconditions[where desc = "[]" and i = Invoice_zero, THEN conjunct1]
  note d1 = Set_preconditions[where desc = "''Hello World''" and i = Invoice_zero,
      THEN conjunct2, THEN conjunct1]
  note a0 = Set_preconditions[where amt = 0 and i = Invoice_zero,
      THEN conjunct2, THEN conjunct2]
  note a1 = Set_preconditions[where amt = "0x80000000" and i = Invoice_zero,
      THEN conjunct2, THEN conjunct2]
  note a2 = Set_preconditions[where amt = "0x422A0000" and i = Invoice_zero,
      THEN conjunct2, THEN conjunct2, THEN conjunct2]
  from d0 have 1: "SetDescription [] Invoice_zero = Panics ''provide the description argument''"
    by simp
  from d1 have 2: "\<exists>i'. SetDescription ''Hello World'' Invoice_zero = Returns i' \<and>
      Description (InvoiceIn i') = ''Hello World''" by simp
  from a0 have 3: "SetTotalAmount 0 Invoice_zero = Panics ''provide the totalAmount argument''"
    by simp
  from a1 have 4: "SetTotalAmount 0x80000000 Invoice_zero = Panics ''provide the totalAmount argument''"
    by simp
  from a2 have 5: "\<exists>i'. SetTotalAmount 0x422A0000 Invoice_zero = Returns i' \<and>
      TotalAmount (InvoiceIn i') = 0x422A0000" by simp
  from 1 2 3 4 5 show ?thesis by (intro conjI)
qed

section \<open>Custom data (C9)\<close>

text \<open>
  Called on its own, \<^verbatim>\<open>SetCustomData\<close> blocks on a held mutex and otherwise returns with
  the key set to the value in the custom data, the map made first when it was nil; and it
  is its five statements run in a row.
\<close>

lemma SetCustomData_sequential:
  "SetCustomData key val i =
     (case Mutex i of
        Locked \<Rightarrow> Blocks
      | Unlocked \<Rightarrow>
          Returns (i\<lparr>CustomData :=
            Some ((case CustomData i of None \<Rightarrow> Map.empty | Some m \<Rightarrow> m)(key \<mapsto> val))\<rparr>))"
  by (cases "Mutex i"; cases "CustomData i")
    (simp_all add: SetCustomData_def Lock_def Unlock_def outcome_bind_def map_assign_def make_map_def)

lemma SetCustomData_as_steps:
  "SetCustomData key val i =
     outcome_bind (SetCustomData_steps 5 key val (AtNilCheck, i)) (\<lambda>(p, i). Returns i)"
  by (cases "Mutex i"; cases "CustomData i")
    (simp_all add: SetCustomData_def Lock_def Unlock_def outcome_bind_def map_assign_def make_map_def
      numeral_eq_Suc)

text \<open>
  When the custom data is already made, no run of two calls with different keys loses a
  key.
\<close>

lemma interleave_initialised:
  "k1 \<noteq> k2 \<Longrightarrow> initialised k1 v1 k2 v2 c \<Longrightarrow> interleave k1 v1 k2 v2 sched c = Returns c' \<Longrightarrow>
   initialised k1 v1 k2 v2 c'"
proof (induction sched arbitrary: c)
  case Nil
  then show ?case by simp
next
  case (Cons g sched)
  obtain p1 p2 i where c: "c = (p1, p2, i)" by (cases c)
  from Cons.prems(2) c obtain m where m: "CustomData i = Some m"
    by (auto simp: initialised_def split: option.splits)
  show ?case
  proof (cases g)
    case G1
    with Cons.prems(3) c obtain p1' i' where s: "SetCustomData_step k1 v1 p1 i = Returns (p1', i')"
      and r: "interleave k1 v1 k2 v2 sched (p1', p2, i') = Returns c'"
      by (auto simp: outcome_bind_def split: outcome.splits)
    from s m Cons.prems(1,2) c have "initialised k1 v1 k2 v2 (p1', p2, i')"
      by (cases p1) (auto simp: initialised_def Lock_def Unlock_def outcome_bind_def map_assign_def
          split: RWMutex.splits if_splits)
    with Cons.IH[OF Cons.prems(1) _ r] show ?thesis by simp
  next
    case G2
    with Cons.prems(3) c obtain p2' i' where s: "SetCustomData_step k2 v2 p2 i = Returns (p2', i')"
      and r: "interleave k1 v1 k2 v2 sched (p1, p2', i') = Returns c'"
      by (auto simp: outcome_bind_def split: outcome.splits)
    from s m Cons.prems(1,2) c have "initialised k1 v1 k2 v2 (p1, p2', i')"
      by (cases p2) (auto simp: initialised_def Lock_def Unlock_def outcome_bind_def map_assign_def
          split: RWMutex.splits if_splits)
    with Cons.IH[OF Cons.prems(1) _ r] show ?thesis by simp
  qed
qed

lemma SetCustomData_concurrent_initialised:
  assumes "CustomData i \<noteq> None" and "k1 \<noteq> k2"
    and "interleave k1 v1 k2 v2 sched (AtNilCheck, AtNilCheck, i) = Returns (Done, Done, i')"
  shows "\<exists>m. CustomData i' = Some m \<and> m k1 = Some v1 \<and> m k2 = Some v2"
proof -
  from assms(1) have "initialised k1 v1 k2 v2 (AtNilCheck, AtNilCheck, i)"
    by (auto simp: initialised_def)
  with assms(2) have "initialised k1 v1 k2 v2 (Done, Done, i')"
    using assms(3) by (rule interleave_initialised)
  then show ?thesis by (auto simp: initialised_def split: option.splits)
qed

text \<open>
  C9. The claim is that two concurrent \<^verbatim>\<open>SetCustomData\<close> calls with different keys leave
  both keys in the custom data. On a new invoice they need not: the nil test and the
  assignment of the fresh map come before \<^verbatim>\<open>i.Lock()\<close>, so both goroutines can see nil,
  and the second then replaces the map that already holds the first one's key. In the run
  below both calls return, and the custom data holds \<^verbatim>\<open>b\<close> only: the update of \<^verbatim>\<open>a\<close> is
  lost.
\<close>

theorem SetCustomData_lost_update:
  "interleave ''a'' ''x'' ''b'' ''y'' racing_schedule (AtNilCheck, AtNilCheck, Invoice_unset) =
     Returns (Done, Done, Invoice_unset\<lparr>CustomData := Some [''b'' \<mapsto> ''y'']\<rparr>) \<and>
   map_index [] (Some [''b'' \<mapsto> ''y'']) ''a'' = [] \<and>
   [''b'' \<mapsto> ''y''] ''a'' = None"
  by (simp add: racing_schedule_def Invoice_unset_def Lock_def Unlock_def outcome_bind_def
      map_assign_def make_map_def map_index_def)

end
